theory Spec2Isabelle
  imports Main "HOL-Library.Sublist"
begin

section \<open>JavaScript values used by the content script\<close>

text \<open>
  The model follows \<^verbatim>\<open>chrome/content_script.js\<close>. The private names of the script end
  in an underscore, which a constant name here cannot; they are written without it
  (\<^verbatim>\<open>handleKeypress_\<close> is \<open>handleKeypress\<close>, \<^verbatim>\<open>typedChars_\<close> is \<open>typedChars\<close>).
\<close>

text \<open>
  A JavaScript string is a sequence of UTF-16 code units. The typed-characters buffer is
  built from \<^verbatim>\<open>String.fromCharCode(evt.charCode)\<close>, which yields exactly one code unit,
  the character code reduced modulo \<open>2^16\<close>.
\<close>

type_synonym jsstring = "nat list"

definition fromCharCode :: "nat \<Rightarrow> jsstring" where
  "fromCharCode c = [c mod 65536]"

text \<open>
  \<^verbatim>\<open>str.slice(-1 * n)\<close> and \<^verbatim>\<open>str.substr(-1 * n)\<close> for a non-negative integer \<open>n\<close>:
  a negative start counts from the end and is clamped at the beginning of the string;
  \<open>-1 * 0\<close> is \<open>-0\<close>, which is position 0, so the whole string is returned.
\<close>

definition slice_neg :: "'a list \<Rightarrow> nat \<Rightarrow> 'a list" where
  "slice_neg str n = (if n = 0 then str else drop (length str - n) str)"

definition substr_neg :: "'a list \<Rightarrow> nat \<Rightarrow> 'a list" where
  "substr_neg str n = (if n = 0 then str else drop (length str - n) str)"

text \<open>
  \<^verbatim>\<open>goog.string.startsWith(str, prefix)\<close> is \<^verbatim>\<open>str.lastIndexOf(prefix, 0) == 0\<close> and
  \<^verbatim>\<open>goog.string.endsWith(str, suffix)\<close> is
  \<^verbatim>\<open>var l = str.length - suffix.length; return l >= 0 && str.indexOf(suffix, l) == l\<close>.
\<close>

definition startsWith :: "string \<Rightarrow> string \<Rightarrow> bool" where
  "startsWith str pre = (take (length pre) str = pre)"

definition endsWith :: "string \<Rightarrow> string \<Rightarrow> bool" where
  "endsWith str suf =
     (length suf \<le> length str \<and> drop (length str - length suf) str = suf)"

text \<open>
  A \<^verbatim>\<open>Date\<close> is its time value in milliseconds; \<open>None\<close> stands for a variable that is
  still \<^verbatim>\<open>undefined\<close> or holds an invalid date. \<^verbatim>\<open>now - t > limit\<close> is then a comparison
  with \<^verbatim>\<open>NaN\<close>, which is false. \<open>now\<close> comes from \<^verbatim>\<open>new Date()\<close> and is always valid.
\<close>

definition elapsed_gt :: "int \<Rightarrow> int option \<Rightarrow> int \<Rightarrow> bool" where
  "elapsed_gt now t limit = (case t of None \<Rightarrow> False | Some t0 \<Rightarrow> now - t0 > limit)"

text \<open>
  \<^verbatim>\<open>evt.timeStamp <= passwordcatcher.lastKeypressTimeStamp_\<close>: false while the variable
  is \<^verbatim>\<open>undefined\<close>.
\<close>

definition timeStamp_le :: "int \<Rightarrow> int option \<Rightarrow> bool" where
  "timeStamp_le ts prev = (case prev of None \<Rightarrow> False | Some t \<Rightarrow> ts \<le> t)"


section \<open>Constants\<close>

definition GAIA_URL :: string where
  "GAIA_URL = ''https://accounts.google.com/''"

definition SECONDS_TO_CLEAR :: int where
  "SECONDS_TO_CLEAR = 10"

definition ENTER_ASCII_CODE :: nat where
  "ENTER_ASCII_CODE = 13"

definition SECONDS_TO_CLEAR_OTP :: int where
  "SECONDS_TO_CLEAR_OTP = 60"


section \<open>Module state\<close>

text \<open>
  The variables of the \<^verbatim>\<open>passwordcatcher\<close> namespace that the keypress handler reads or
  writes. \<open>sso_url\<close> is \<open>None\<close> while undefined. \<open>typedChars\<close> and \<open>passwordLengths\<close>
  are undefined until \<^verbatim>\<open>start_\<close> assigns them; they are read only while \<open>isRunning\<close>
  holds, which only \<^verbatim>\<open>start_\<close> establishes, and are modelled as empty before that.
\<close>

record passwordcatcher =
  sso_url :: "string option"
  otp_length :: nat
  url :: string
  isRunning :: bool
  typedChars :: jsstring
  typedTime :: "int option"
  lastKeypressTimeStamp :: "int option"
  passwordLengths :: "bool list"
  otpMode :: bool
  otpTime :: "int option"
  otpCount :: nat
  isEnterpriseUse :: bool

text \<open>
  The keypress event: \<open>view\<close> is true when \<^verbatim>\<open>evt.view\<close> is neither null nor undefined;
  \<open>timeStamp\<close> is a number of milliseconds.
\<close>

record event =
  view :: bool
  timeStamp :: int
  charCode :: nat

text \<open>
  The parsed status message of the background page that \<^verbatim>\<open>start_\<close> receives; \<open>msg_otpTime\<close>
  is the time value of \<^verbatim>\<open>new Date(state.otpTime)\<close>.
\<close>

record status =
  msg_passwordLengths :: "bool list"
  msg_otpMode :: bool
  msg_otpTime :: "int option"

text \<open>
  What the handlers do to the outside: the messages sent to the background page with
  \<^verbatim>\<open>chrome.runtime.sendMessage\<close> and the banner injected into the page. Of the payload of
  a message only the candidate password is kept; the url, the referrer and the
  \<open>looksLikeGoogle\<close> flag of the page are left out.
\<close>

datatype effect =
    ClearOtpMode
  | CheckPassword jsstring
  | OtpAlert
  | InjectWarningBanner


section \<open>Starting and stopping\<close>

definition stop :: "passwordcatcher \<Rightarrow> passwordcatcher" where
  "stop s = s\<lparr>isRunning := False\<rparr>"

text \<open>
  \<^verbatim>\<open>start_\<close>, on the parsed message. \<^verbatim>\<open>passwordcatcher.sso_url_ && ...\<close> needs a defined,
  non-empty string.
\<close>

definition start :: "status \<Rightarrow> passwordcatcher \<Rightarrow> passwordcatcher" where
  "start msg s =
     (let s1 = s\<lparr>passwordLengths := msg_passwordLengths msg\<rparr> in
      if length (passwordLengths s1) = 0 then stop s1
      else
        let s2 = (if msg_otpMode msg
                  then s1\<lparr>otpMode := True, otpTime := msg_otpTime msg\<rparr>
                  else s1)
        in
        if (case sso_url s2 of
              None \<Rightarrow> False
            | Some u \<Rightarrow> u \<noteq> [] \<and> startsWith (url s2) u)
           \<or> startsWith (url s2) GAIA_URL
        then stop s2
        else s2\<lparr>typedChars := [], isRunning := True\<rparr>)"

definition clearOtpMode :: "passwordcatcher \<Rightarrow> passwordcatcher \<times> effect list" where
  "clearOtpMode s = (s\<lparr>otpMode := False\<rparr>, [ClearOtpMode])"


section \<open>The keypress handler\<close>

text \<open>
  The block guarded by \<^verbatim>\<open>if (passwordcatcher.otpMode_)\<close>; \<open>now\<close> is the value of the
  \<^verbatim>\<open>new Date()\<close> read inside that block.
\<close>

definition handleKeypress_otp ::
  "int \<Rightarrow> event \<Rightarrow> passwordcatcher \<Rightarrow> passwordcatcher \<times> effect list" where
  "handleKeypress_otp now evt s =
     (if otpMode s then
        let (s1, m1) =
              (if elapsed_gt now (otpTime s) (SECONDS_TO_CLEAR_OTP * 1000)
               then clearOtpMode s
               else if charCode evt \<ge> 0x30 \<and> charCode evt \<le> 0x39
               then (s\<lparr>otpCount := otpCount s + 1\<rparr>, [])
               else if charCode evt > 0x20 \<or> otpCount s > 0
               then clearOtpMode s
               else (s, []));
            (s2, m2) =
              (if otpCount s1 \<ge> otp_length s1
               then (let (s', m) = clearOtpMode s1 in (s', OtpAlert # m))
               else (s1, []))
        in (s2, m1 @ m2)
      else (s, []))"

text \<open>
  The loop \<^verbatim>\<open>for (var i = 1; i < passwordLengths_.length; i++)\<close> that sends the
  candidates, started at \<open>i\<close>; each \<^verbatim>\<open>checkChars_\<close> call sends one message (its
  callback runs later, see \<open>checkChars_response\<close>).
\<close>

function handleKeypress_loop :: "nat \<Rightarrow> passwordcatcher \<Rightarrow> effect list" where
  "handleKeypress_loop i s =
     (if i < length (passwordLengths s) then
        (if passwordLengths s ! i \<and> length (typedChars s) \<ge> i
         then [CheckPassword (substr_neg (typedChars s) i)]
         else [])
        @ handleKeypress_loop (i + 1) s
      else [])"
  by pat_completeness auto
termination
  by (relation "measure (\<lambda>(i, s). length (passwordLengths s) - i)") auto

declare handleKeypress_loop.simps [simp del]

text \<open>
  \<^verbatim>\<open>handleKeypress_\<close>; \<open>now_otp\<close> and \<open>now\<close> are the two clock readings the handler
  takes, the first inside the OTP block, the second before the buffer is updated.
\<close>

definition handleKeypress ::
  "int \<Rightarrow> int \<Rightarrow> event \<Rightarrow> passwordcatcher \<Rightarrow> passwordcatcher \<times> effect list" where
  "handleKeypress now_otp now evt s =
     (if \<not> isRunning s then (s, [])
      else if \<not> view evt then (s, [])
      else if timeStamp_le (timeStamp evt) (lastKeypressTimeStamp s) then (s, [])
      else
        let s1 = s\<lparr>lastKeypressTimeStamp := Some (timeStamp evt)\<rparr>;
            (s2, m_otp) = handleKeypress_otp now_otp evt s1
        in
        if charCode evt = ENTER_ASCII_CODE then (s2\<lparr>typedChars := []\<rparr>, m_otp)
        else
          let s3 = (if elapsed_gt now (typedTime s2) (SECONDS_TO_CLEAR * 1000)
                    then s2\<lparr>typedChars := []\<rparr>
                    else s2);
              s4 = s3\<lparr>typedChars := typedChars s3 @ fromCharCode (charCode evt),
                      typedTime := Some now\<rparr>;
              s5 = (if length (typedChars s4) > length (passwordLengths s4)
                    then s4\<lparr>typedChars :=
                              slice_neg (typedChars s4) (length (passwordLengths s4))\<rparr>
                    else s4)
          in (s5, m_otp @ handleKeypress_loop 1 s5))"

text \<open>
  The callback of \<^verbatim>\<open>checkChars_\<close>, run when the background page answers a
  \<open>CheckPassword\<close> message; \<open>response\<close> is the truthiness of the answer and \<open>now\<close> the
  clock reading taken in the callback.
\<close>

definition checkChars_response ::
  "bool \<Rightarrow> int \<Rightarrow> passwordcatcher \<Rightarrow> passwordcatcher \<times> effect list" where
  "checkChars_response response now s =
     (if response
      then (s\<lparr>otpCount := 0, otpMode := True, otpTime := Some now\<rparr>,
            if \<not> isEnterpriseUse s then [InjectWarningBanner] else [])
      else (s, []))"


section \<open>The whitelist check\<close>

text \<open>
  \<^verbatim>\<open>whitelistUrl_\<close>: \<open>domain\<close> is the value of
  \<^verbatim>\<open>goog.uri.utils.getDomain(passwordcatcher.url_) || ''\<close>, the list is
  \<^verbatim>\<open>whitelist_top_domains_\<close>; the loop returns at the first entry that matches.
\<close>

fun whitelistUrl :: "string \<Rightarrow> string list \<Rightarrow> bool" where
  "whitelistUrl domain [] = False"
| "whitelistUrl domain (w # ws) =
     (if endsWith domain w then True else whitelistUrl domain ws)"


section \<open>Page load and the event loop\<close>

text \<open>
  The values of the variables when the script is loaded; \<open>href\<close> is
  \<^verbatim>\<open>location.href.toString()\<close>.
\<close>

definition initial :: "string \<Rightarrow> passwordcatcher" where
  "initial href =
     \<lparr>sso_url = None, otp_length = 6, url = href, isRunning = False,
      typedChars = [], typedTime = None, lastKeypressTimeStamp = None,
      passwordLengths = [], otpMode = False, otpTime = None, otpCount = 0,
      isEnterpriseUse = False\<rparr>"

text \<open>
  The managed policy, as far as it reaches the variables above: \<open>None\<close> is the empty
  policy object of consumer use. \<^verbatim>\<open>if (managedPolicy['otp_length'])\<close> keeps the default
  when the entry is missing or zero.
\<close>

record managedPolicy =
  policy_sso_url :: "string option"
  policy_otp_length :: "nat option"

definition setManagedPolicyValuesIntoConfigurableVariables ::
  "managedPolicy option \<Rightarrow> passwordcatcher \<Rightarrow> passwordcatcher" where
  "setManagedPolicyValuesIntoConfigurableVariables pol s =
     (case pol of
        None \<Rightarrow> s\<lparr>isEnterpriseUse := False\<rparr>
      | Some p \<Rightarrow>
          let s1 = s\<lparr>isEnterpriseUse := True, sso_url := policy_sso_url p\<rparr> in
          (case policy_otp_length p of
             None \<Rightarrow> s1
           | Some n \<Rightarrow> if n \<noteq> 0 then s1\<lparr>otp_length := n\<rparr> else s1))"

text \<open>
  \<^verbatim>\<open>initializePage_\<close> up to the point where \<^verbatim>\<open>completePageInitialization_\<close> has
  registered the message and keypress listeners. The messages sent on the way are left
  out. (On the YouTube connection-check URL the script returns before it registers
  them, and no input reaches the handlers.)
\<close>

definition initializePage :: "managedPolicy option \<Rightarrow> string \<Rightarrow> passwordcatcher" where
  "initializePage pol href =
     setManagedPolicyValuesIntoConfigurableVariables pol (initial href)"

text \<open>
  After initialisation the page reacts to three kinds of input: a status message of the
  background page (the listener calls \<^verbatim>\<open>stop_\<close> and then \<^verbatim>\<open>start_\<close>), a keypress, and
  the answer to an earlier \<open>CheckPassword\<close> message. Inputs are handled one at a time.
\<close>

datatype input =
    Message status
  | Keypress int int event
  | Response bool int

fun step :: "input \<Rightarrow> passwordcatcher \<Rightarrow> passwordcatcher \<times> effect list" where
  "step (Message msg) s = (start msg (stop s), [])"
| "step (Keypress now_otp now evt) s = handleKeypress now_otp now evt s"
| "step (Response response now) s = checkChars_response response now s"

fun run :: "input list \<Rightarrow> passwordcatcher \<Rightarrow> passwordcatcher \<times> effect list" where
  "run [] s = (s, [])"
| "run (i # ins) s =
     (let (s1, m1) = step i s; (s2, m2) = run ins s1 in (s2, m1 @ m2))"

fun isKeypress :: "input \<Rightarrow> bool" where
  "isKeypress (Keypress now_otp now evt) = True"
| "isKeypress other = False"


section \<open>Notions of the specification\<close>

text \<open>
  A length \<open>n\<close> is watched when the array holds true at offset \<open>n\<close>; the largest watched
  length is 0 when there is none.
\<close>

definition isWatched :: "bool list \<Rightarrow> nat \<Rightarrow> bool" where
  "isWatched pl n = (n < length pl \<and> pl ! n)"

definition maxLength :: "bool list \<Rightarrow> nat" where
  "maxLength pl = foldr max (filter (isWatched pl) [0..<length pl]) 0"

text \<open>
  A keypress is accepted when it passes the three guards at the top of the handler.
\<close>

definition accepted :: "event \<Rightarrow> passwordcatcher \<Rightarrow> bool" where
  "accepted evt s =
     (isRunning s \<and> view evt \<and> \<not> timeStamp_le (timeStamp evt) (lastKeypressTimeStamp s))"

text \<open>The candidates among the effects, in the order they were sent.\<close>

fun candidates :: "effect list \<Rightarrow> jsstring list" where
  "candidates [] = []"
| "candidates (CheckPassword c # ms) = c # candidates ms"
| "candidates (m # ms) = candidates ms"

text \<open>The code units of an ASCII string.\<close>

definition js :: "string \<Rightarrow> jsstring" where
  "js str = map of_char str"

text \<open>
  The buffer an accepted keypress other than Enter leaves behind: cleared first when the
  last character is older than \<open>SECONDS_TO_CLEAR\<close>, then extended by the new code unit,
  then cut to its last \<open>length passwordLengths\<close> code units.
\<close>

definition appended :: "int \<Rightarrow> event \<Rightarrow> passwordcatcher \<Rightarrow> jsstring" where
  "appended now evt s =
     (let b = (if elapsed_gt now (typedTime s) (SECONDS_TO_CLEAR * 1000) then []
               else typedChars s) @ fromCharCode (charCode evt)
      in if length b > length (passwordLengths s)
         then slice_neg b (length (passwordLengths s)) else b)"

text \<open>
  A run of digit keypresses, each with a view, with strictly increasing time stamps above
  \<open>prev\<close>, and each handled no later than \<open>SECONDS_TO_CLEAR_OTP\<close> after \<open>armed\<close>.
\<close>

fun digitKeys :: "int option \<Rightarrow> int option \<Rightarrow> input list \<Rightarrow> bool" where
  "digitKeys prev armed [] = True"
| "digitKeys prev armed (Keypress now_otp now evt # ks) =
     (view evt \<and> \<not> timeStamp_le (timeStamp evt) prev
      \<and> 0x30 \<le> charCode evt \<and> charCode evt \<le> 0x39
      \<and> \<not> elapsed_gt now_otp armed (SECONDS_TO_CLEAR_OTP * 1000)
      \<and> digitKeys (Some (timeStamp evt)) armed ks)"
| "digitKeys prev armed (other # ks) = False"

text \<open>
  Whether one of the keypresses among the inputs is accepted when the inputs are handled
  in turn from the state \<open>s\<close>.
\<close>

fun anyAccepted :: "input list \<Rightarrow> passwordcatcher \<Rightarrow> bool" where
  "anyAccepted [] s = False"
| "anyAccepted (Keypress now_otp now evt # ins) s =
     (accepted evt s \<or> anyAccepted ins (fst (handleKeypress now_otp now evt s)))"
| "anyAccepted (i # ins) s = anyAccepted ins (fst (step i s))"

text \<open>
  An input that cannot make the OTP tracker active: a keypress, a negative answer, or a
  status message without \<open>otpMode\<close>.
\<close>

fun nonArming :: "input \<Rightarrow> bool" where
  "nonArming (Message msg) = (\<not> msg_otpMode msg)"
| "nonArming (Keypress now_otp now evt) = True"
| "nonArming (Response response now) = (\<not> response)"

text \<open>The printable characters of ASCII, from the space to the tilde.\<close>

definition isPrintableAscii :: "nat \<Rightarrow> bool" where
  "isPrintableAscii c = (0x20 \<le> c \<and> c \<le> 0x7E)"


section \<open>Example pages and keys\<close>

text \<open>
  A genuine keypress with character code \<open>c\<close> and time stamp \<open>ts\<close>; a status message
  that only sets the watched lengths; and a page outside the login URLs, under consumer
  use, after it has received such a message.
\<close>

definition key :: "nat \<Rightarrow> int \<Rightarrow> event" where
  "key c ts = \<lparr>view = True, timeStamp = ts, charCode = c\<rparr>"

definition watching :: "bool list \<Rightarrow> status" where
  "watching pl = \<lparr>msg_passwordLengths = pl, msg_otpMode = False, msg_otpTime = None\<rparr>"

definition running_page :: "bool list \<Rightarrow> passwordcatcher" where
  "running_page pl =
     fst (run [Message (watching pl)] (initializePage None ''http://example.test/''))"

text \<open>
  The page watching the lengths 4 and 6 after \<open>xx123\<close> has been typed, one key every
  100 ms.
\<close>

definition typed_xx123 :: passwordcatcher where
  "typed_xx123 =
     fst (run [Keypress 0 0 (key 120 1), Keypress 100 100 (key 120 2),
               Keypress 200 200 (key 49 3), Keypress 300 300 (key 50 4),
               Keypress 400 400 (key 51 5)]
            (running_page [False, False, False, False, True, False, True]))"

text \<open>
  The page watching only the length 5 after \<open>ab\<close> has been typed, and the page watching
  only the length 1.
\<close>

definition typed_ab :: passwordcatcher where
  "typed_ab =
     fst (run [Keypress 0 0 (key 97 1), Keypress 100 100 (key 98 2)]
            (running_page [False, False, False, False, False, True]))"

definition watch_one :: "bool list" where
  "watch_one = [False, True]"

text \<open>
  The page watching the length 1 after a candidate has been confirmed at time 0 and the
  digits \<open>123\<close> have been typed, one every second.
\<close>

definition armed_123 :: passwordcatcher where
  "armed_123 =
     fst (run [Response True 0, Keypress 1000 1000 (key 49 1),
               Keypress 2000 2000 (key 50 2), Keypress 3000 3000 (key 51 3)]
            (running_page watch_one))"

text \<open>Six digit keys, one every second from time 1000 on.\<close>

definition six_digits :: "input list" where
  "six_digits =
     [Keypress 1000 1000 (key 49 1), Keypress 2000 2000 (key 50 2),
      Keypress 3000 3000 (key 51 3), Keypress 4000 4000 (key 52 4),
      Keypress 5000 5000 (key 53 5), Keypress 6000 6000 (key 54 6)]"

text \<open>
  The page watching the length 1 right after a candidate has been confirmed at time 0.
\<close>

definition armed_page :: passwordcatcher where
  "armed_page = fst (run [Response True 0] (running_page watch_one))"

text \<open>
  A status message that watches the length 1 and carries \<open>otpMode\<close>, with the arming time
  6500.
\<close>

definition rearm :: status where
  "rearm = \<lparr>msg_passwordLengths = watch_one, msg_otpMode = True, msg_otpTime = Some 6500\<rparr>"

text \<open>
  The page watching the length 1 after a key with time stamp 100 has been accepted and a
  second status message has stopped and started it again.
\<close>

definition restarted_page :: passwordcatcher where
  "restarted_page =
     fst (run [Message (watching watch_one), Keypress 0 0 (key 97 100),
               Message (watching watch_one)]
            (initializePage None ''http://example.test/''))"

text \<open>
  Inputs without an accepted keypress: a key before the first status message, a status
  message, a key without a view, an answer, and a second status message.
\<close>

definition quiet_inputs :: "input list" where
  "quiet_inputs =
     [Keypress 0 0 (key 97 9), Message (watching watch_one),
      Keypress 10 10 (key 98 10\<lparr>view := False\<rparr>), Response True 50,
      Message (watching watch_one)]"


section \<open>Auxiliary facts\<close>

subsection \<open>The OTP block\<close>

lemma clearOtpMode_simps [simp]:
  "fst (clearOtpMode s) = s\<lparr>otpMode := False\<rparr>"
  "snd (clearOtpMode s) = [ClearOtpMode]"
  by (simp_all add: clearOtpMode_def)

lemma handleKeypress_otp_fields [simp]:
  "typedChars (fst (handleKeypress_otp now evt s)) = typedChars s"
  "typedTime (fst (handleKeypress_otp now evt s)) = typedTime s"
  "passwordLengths (fst (handleKeypress_otp now evt s)) = passwordLengths s"
  "isRunning (fst (handleKeypress_otp now evt s)) = isRunning s"
  "lastKeypressTimeStamp (fst (handleKeypress_otp now evt s)) = lastKeypressTimeStamp s"
  "otp_length (fst (handleKeypress_otp now evt s)) = otp_length s"
  "otpTime (fst (handleKeypress_otp now evt s)) = otpTime s"
  by (simp_all add: handleKeypress_otp_def clearOtpMode_def Let_def split: prod.splits)

lemma candidates_append [simp]: "candidates (xs @ ys) = candidates xs @ candidates ys"
  by (induction xs rule: candidates.induct) simp_all

lemma candidates_otp [simp]: "candidates (snd (handleKeypress_otp now evt s)) = []"
  by (simp add: handleKeypress_otp_def clearOtpMode_def Let_def split: prod.splits)

subsection \<open>The candidate loop\<close>

lemma handleKeypress_loop_eq:
  "handleKeypress_loop i s =
     map (\<lambda>k. CheckPassword (substr_neg (typedChars s) k))
       (filter (\<lambda>k. passwordLengths s ! k \<and> k \<le> length (typedChars s))
          [i..<length (passwordLengths s)])"
proof (induction i s rule: handleKeypress_loop.induct)
  case (1 i s)
  show ?case
  proof (cases "i < length (passwordLengths s)")
    case True
    then have "[i..<length (passwordLengths s)] = i # [i + 1..<length (passwordLengths s)]"
      by (simp add: upt_conv_Cons)
    with True 1 show ?thesis
      by (subst handleKeypress_loop.simps) simp
  next
    case False
    then show ?thesis
      by (subst handleKeypress_loop.simps) simp
  qed
qed

lemma candidates_map_CheckPassword [simp]:
  "candidates (map (\<lambda>k. CheckPassword (f k)) ks) = map f ks"
  by (induction ks) simp_all

subsection \<open>The handler, case by case\<close>

lemma handleKeypress_rejected:
  "\<not> accepted evt s \<Longrightarrow> handleKeypress now_otp now evt s = (s, [])"
  by (auto simp: handleKeypress_def accepted_def)

lemma handleKeypress_enter:
  assumes "accepted evt s" "charCode evt = ENTER_ASCII_CODE"
  shows "fst (handleKeypress now_otp now evt s) =
           (fst (handleKeypress_otp now_otp evt
                   (s\<lparr>lastKeypressTimeStamp := Some (timeStamp evt)\<rparr>)))
             \<lparr>typedChars := []\<rparr>"
    and "snd (handleKeypress now_otp now evt s) =
           snd (handleKeypress_otp now_otp evt
                  (s\<lparr>lastKeypressTimeStamp := Some (timeStamp evt)\<rparr>))"
  using assms by (simp_all add: handleKeypress_def accepted_def Let_def case_prod_beta)

lemma handleKeypress_char:
  assumes "accepted evt s" "charCode evt \<noteq> ENTER_ASCII_CODE"
  shows "fst (handleKeypress now_otp now evt s) =
           (fst (handleKeypress_otp now_otp evt
                   (s\<lparr>lastKeypressTimeStamp := Some (timeStamp evt)\<rparr>)))
             \<lparr>typedChars := appended now evt s, typedTime := Some now\<rparr>"
    and "snd (handleKeypress now_otp now evt s) =
           snd (handleKeypress_otp now_otp evt
                  (s\<lparr>lastKeypressTimeStamp := Some (timeStamp evt)\<rparr>))
           @ handleKeypress_loop 1 (fst (handleKeypress now_otp now evt s))"
  using assms
  by (simp_all add: handleKeypress_def accepted_def Let_def appended_def case_prod_beta)

lemma handleKeypress_sets_timeStamp:
  "accepted evt s \<Longrightarrow>
     lastKeypressTimeStamp (fst (handleKeypress now_otp now evt s)) = Some (timeStamp evt)"
  by (cases "charCode evt = ENTER_ASCII_CODE")
     (simp_all add: handleKeypress_enter handleKeypress_char)

lemma handleKeypress_isRunning [simp]:
  "isRunning (fst (handleKeypress now_otp now evt s)) = isRunning s"
  by (cases "accepted evt s"; cases "charCode evt = ENTER_ASCII_CODE")
     (simp_all add: handleKeypress_enter handleKeypress_char handleKeypress_rejected)

lemma handleKeypress_passwordLengths [simp]:
  "passwordLengths (fst (handleKeypress now_otp now evt s)) = passwordLengths s"
  by (cases "accepted evt s"; cases "charCode evt = ENTER_ASCII_CODE")
     (simp_all add: handleKeypress_enter handleKeypress_char handleKeypress_rejected)

subsection \<open>The example page\<close>

lemma key_simps [simp]:
  "view (key c ts) = True" "timeStamp (key c ts) = ts" "charCode (key c ts) = c"
  by (simp_all add: key_def)

lemmas handler_defs =
  handleKeypress_def handleKeypress_otp_def clearOtpMode_def checkChars_response_def
  start_def stop_def timeStamp_le_def elapsed_gt_def fromCharCode_def slice_neg_def
  substr_neg_def SECONDS_TO_CLEAR_def SECONDS_TO_CLEAR_OTP_def ENTER_ASCII_CODE_def
  accepted_def key_def

lemma running_page_eq:
  "pl \<noteq> [] \<Longrightarrow> running_page pl =
     \<lparr>sso_url = None, otp_length = 6, url = ''http://example.test/'', isRunning = True,
      typedChars = [], typedTime = None, lastKeypressTimeStamp = None,
      passwordLengths = pl, otpMode = False, otpTime = None, otpCount = 0,
      isEnterpriseUse = False\<rparr>"
  by (simp add: running_page_def initializePage_def
      setManagedPolicyValuesIntoConfigurableVariables_def initial_def watching_def
      start_def stop_def startsWith_def GAIA_URL_def)

subsection \<open>The whitelist\<close>

lemma endsWith_iff_suffix: "endsWith d w \<longleftrightarrow> suffix w d"
proof
  assume "endsWith d w"
  then have "d = take (length d - length w) d @ w"
    by (metis append_take_drop_id endsWith_def)
  then show "suffix w d" by (metis suffixI)
next
  assume "suffix w d"
  then show "endsWith d w" by (auto simp: suffix_def endsWith_def)
qed

lemma whitelistUrl_iff_suffix:
  "whitelistUrl domain ws \<longleftrightarrow> (\<exists>w \<in> set ws. suffix w domain)"
  by (induction ws) (simp_all add: endsWith_iff_suffix)

lemma js_simps [simp]: "js [] = []" "js (c # cs) = of_char c # js cs"
  by (simp_all add: js_def)

lemma typed_xx123_eq:
  "typed_xx123 =
     \<lparr>sso_url = None, otp_length = 6, url = ''http://example.test/'', isRunning = True,
      typedChars = js ''xx123'', typedTime = Some 400, lastKeypressTimeStamp = Some 5,
      passwordLengths = [False, False, False, False, True, False, True],
      otpMode = False, otpTime = None, otpCount = 0, isEnterpriseUse = False\<rparr>"
  by (simp add: typed_xx123_def running_page_eq handler_defs handleKeypress_loop_eq)

subsection \<open>Ranges of lengths\<close>

lemma filter_upt_cut:
  "n \<le> m \<Longrightarrow> filter (\<lambda>k. k < n \<and> P k) [a..<m] = filter P [a..<n]"
proof (cases "a \<le> n")
  case True
  assume "n \<le> m"
  with True have "[a..<m] = [a..<n] @ [n..<m]"
    by (metis le_Suc_ex upt_add_eq_append)
  moreover have "filter (\<lambda>k. k < n \<and> P k) [a..<n] = filter P [a..<n]"
    by (rule filter_cong) auto
  moreover have "filter (\<lambda>k. k < n \<and> P k) [n..<m] = []"
    by (simp add: filter_empty_conv)
  ultimately show ?thesis by simp
next
  case False
  then show ?thesis by (simp add: filter_empty_conv)
qed

lemma filter_upt_eq:
  assumes "\<And>k. a \<le> k \<Longrightarrow> (k < n \<and> P k) = (k < m \<and> Q k)"
  shows "filter P [a..<n] = filter Q [a..<m]"
proof -
  have "filter P [a..<n] = filter (\<lambda>k. k < n \<and> P k) [a..<max n m]"
    by (simp add: filter_upt_cut)
  also have "\<dots> = filter (\<lambda>k. k < m \<and> Q k) [a..<max n m]"
    by (rule filter_cong) (use assms in auto)
  also have "\<dots> = filter Q [a..<m]"
    by (simp add: filter_upt_cut)
  finally show ?thesis .
qed

lemma typed_ab_eq:
  "typed_ab =
     \<lparr>sso_url = None, otp_length = 6, url = ''http://example.test/'', isRunning = True,
      typedChars = js ''ab'', typedTime = Some 100, lastKeypressTimeStamp = Some 2,
      passwordLengths = [False, False, False, False, False, True],
      otpMode = False, otpTime = None, otpCount = 0, isEnterpriseUse = False\<rparr>"
  by (simp add: typed_ab_def running_page_eq handler_defs handleKeypress_loop_eq)

text \<open>Typed without a pause, \<open>abcde\<close> is sent as a candidate.\<close>

lemma abcde_without_pause:
  "candidates (snd (run [Keypress 200 200 (key 99 3), Keypress 300 300 (key 100 4),
                         Keypress 400 400 (key 101 5)] typed_ab)) = [js ''abcde'']"
  by (simp add: typed_ab_eq handler_defs handleKeypress_loop_eq)

subsection \<open>The size of the buffer\<close>

lemma length_appended:
  "passwordLengths s \<noteq> [] \<Longrightarrow> length (appended now evt s) \<le> length (passwordLengths s)"
  by (auto simp: appended_def Let_def slice_neg_def fromCharCode_def)

lemma foldr_max_less:
  "0 < n \<Longrightarrow> (\<And>x. x \<in> set xs \<Longrightarrow> x < n) \<Longrightarrow> foldr max xs 0 < (n::nat)"
  by (induction xs) simp_all

lemma maxLength_less_length: "pl \<noteq> [] \<Longrightarrow> maxLength pl < length pl"
  unfolding maxLength_def by (rule foldr_max_less) (simp_all add: isWatched_def)

text \<open>
  What holds of the buffer while the page is running, and is kept by every input.
\<close>

lemma buffer_inv_step:
  assumes "isRunning s \<Longrightarrow>
             passwordLengths s \<noteq> [] \<and> length (typedChars s) \<le> length (passwordLengths s)"
    and "isRunning (fst (step i s))"
  shows "passwordLengths (fst (step i s)) \<noteq> []
         \<and> length (typedChars (fst (step i s))) \<le> length (passwordLengths (fst (step i s)))"
proof (cases i)
  case (Message msg)
  with assms(2) show ?thesis
    by (auto simp: start_def stop_def Let_def split: if_splits)
next
  case (Keypress now_otp now evt)
  with assms(2) have run: "isRunning s" by simp
  show ?thesis
  proof (cases "accepted evt s")
    case False
    with Keypress assms(1) run show ?thesis by (simp add: handleKeypress_rejected)
  next
    case True
    with assms(1) run have "passwordLengths s \<noteq> []" by simp
    with True Keypress show ?thesis
      by (cases "charCode evt = ENTER_ASCII_CODE")
         (simp_all add: handleKeypress_enter handleKeypress_char length_appended)
  qed
next
  case (Response response now)
  with assms show ?thesis by (cases response) (simp_all add: checkChars_response_def)
qed

lemma run_Cons_fst: "fst (run (i # ins) s) = fst (run ins (fst (step i s)))"
  by (simp add: case_prod_beta)

lemma buffer_inv_run:
  assumes "isRunning s \<Longrightarrow>
             passwordLengths s \<noteq> [] \<and> length (typedChars s) \<le> length (passwordLengths s)"
    and "isRunning (fst (run ins s))"
  shows "passwordLengths (fst (run ins s)) \<noteq> []
         \<and> length (typedChars (fst (run ins s))) \<le> length (passwordLengths (fst (run ins s)))"
  using assms
proof (induction ins arbitrary: s)
  case Nil
  then show ?case by simp
next
  case (Cons i ins)
  show ?case
    unfolding run_Cons_fst
  proof (rule Cons.IH)
    show "isRunning (fst (run ins (fst (step i s))))"
      using Cons.prems(2) by (simp only: run_Cons_fst)
  next
    assume "isRunning (fst (step i s))"
    then show "passwordLengths (fst (step i s)) \<noteq> []
         \<and> length (typedChars (fst (step i s))) \<le> length (passwordLengths (fst (step i s)))"
      using Cons.prems(1) by (rule buffer_inv_step [rotated])
  qed
qed

lemma initializePage_stopped [simp]: "isRunning (initializePage pol href) = False"
  by (simp add: initializePage_def setManagedPolicyValuesIntoConfigurableVariables_def
      initial_def Let_def split: option.splits)

subsection \<open>Variables that inputs do not touch\<close>

lemma handleKeypress_otp_length [simp]:
  "otp_length (fst (handleKeypress now_otp now evt s)) = otp_length s"
  by (cases "accepted evt s"; cases "charCode evt = ENTER_ASCII_CODE")
     (simp_all add: handleKeypress_enter handleKeypress_char handleKeypress_rejected)

lemma step_otp_length [simp]: "otp_length (fst (step i s)) = otp_length s"
  by (cases i) (simp_all add: start_def stop_def checkChars_response_def Let_def)

lemma run_otp_length [simp]: "otp_length (fst (run ins s)) = otp_length s"
  by (induction ins arbitrary: s) (simp_all add: case_prod_beta)

lemma initializePage_otp_length: "0 < otp_length (initializePage pol href)"
  by (simp add: initializePage_def setManagedPolicyValuesIntoConfigurableVariables_def
      initial_def Let_def split: option.splits)

lemma initializePage_timeStamp [simp]:
  "lastKeypressTimeStamp (initializePage pol href) = None"
  by (simp add: initializePage_def setManagedPolicyValuesIntoConfigurableVariables_def
      initial_def Let_def split: option.splits)

lemma step_timeStamp:
  "\<not> isKeypress i \<Longrightarrow> lastKeypressTimeStamp (fst (step i s)) = lastKeypressTimeStamp s"
  by (cases i) (simp_all add: start_def stop_def checkChars_response_def Let_def)

lemma run_timeStamp:
  "\<not> anyAccepted ins s \<Longrightarrow>
     lastKeypressTimeStamp (fst (run ins s)) = lastKeypressTimeStamp s"
proof (induction ins arbitrary: s)
  case Nil
  then show ?case by simp
next
  case (Cons i ins)
  show ?case
  proof (cases i)
    case (Message msg)
    with Cons.prems have "\<not> anyAccepted ins (fst (step i s))" by simp
    then have "lastKeypressTimeStamp (fst (run ins (fst (step i s))))
                 = lastKeypressTimeStamp (fst (step i s))"
      by (rule Cons.IH)
    with Message show ?thesis
      by (simp only: run_Cons_fst step_timeStamp isKeypress.simps not_False_eq_True)
  next
    case (Keypress now_otp now evt)
    with Cons.prems have rej: "\<not> accepted evt s"
      and rest: "\<not> anyAccepted ins (fst (handleKeypress now_otp now evt s))"
      by simp_all
    from rej have same: "fst (handleKeypress now_otp now evt s) = s"
      by (simp add: handleKeypress_rejected)
    from rest have "lastKeypressTimeStamp (fst (run ins s)) = lastKeypressTimeStamp s"
      unfolding same by (rule Cons.IH)
    with Keypress same show ?thesis
      by (simp only: run_Cons_fst step.simps)
  next
    case (Response response now)
    with Cons.prems have "\<not> anyAccepted ins (fst (step i s))" by simp
    then have "lastKeypressTimeStamp (fst (run ins (fst (step i s))))
                 = lastKeypressTimeStamp (fst (step i s))"
      by (rule Cons.IH)
    with Response show ?thesis
      by (simp only: run_Cons_fst step_timeStamp isKeypress.simps not_False_eq_True)
  qed
qed

lemma restarted_page_eq:
  "restarted_page =
     \<lparr>sso_url = None, otp_length = 6, url = ''http://example.test/'', isRunning = True,
      typedChars = [], typedTime = Some 0, lastKeypressTimeStamp = Some 100,
      passwordLengths = [False, True], otpMode = False, otpTime = None, otpCount = 0,
      isEnterpriseUse = False\<rparr>"
  by (simp add: restarted_page_def watch_one_def initializePage_def
      setManagedPolicyValuesIntoConfigurableVariables_def initial_def watching_def
      startsWith_def GAIA_URL_def handler_defs handleKeypress_loop_eq)

subsection \<open>After a pause\<close>

lemma handleKeypress_typedTime:
  "accepted evt s \<Longrightarrow> charCode evt \<noteq> ENTER_ASCII_CODE \<Longrightarrow>
     typedTime (fst (handleKeypress now_otp now evt s)) = Some now"
  by (simp add: handleKeypress_char)

lemma handleKeypress_enter_empties:
  "accepted evt s \<Longrightarrow> charCode evt = ENTER_ASCII_CODE \<Longrightarrow>
     typedChars (fst (handleKeypress now_otp now evt s)) = []"
  by (simp add: handleKeypress_enter)

lemma appended_fresh:
  assumes "typedChars s = [] \<or> elapsed_gt now (typedTime s) (SECONDS_TO_CLEAR * 1000)"
  shows "appended now evt s = fromCharCode (charCode evt)"
  using assms by (auto simp: appended_def Let_def slice_neg_def fromCharCode_def)

lemma candidates_of_single:
  assumes "accepted evt s" "charCode evt \<noteq> ENTER_ASCII_CODE"
    and "typedChars (fst (handleKeypress now_otp now evt s)) = [c]"
  shows "set (candidates (snd (handleKeypress now_otp now evt s))) \<subseteq> {[c]}"
proof -
  have "candidates (snd (handleKeypress now_otp now evt s)) =
          map (substr_neg [c])
            (filter (\<lambda>k. passwordLengths (fst (handleKeypress now_otp now evt s)) ! k \<and> k \<le> 1)
               [1..<length (passwordLengths (fst (handleKeypress now_otp now evt s)))])"
    using assms by (simp add: handleKeypress_char(2) handleKeypress_loop_eq)
  then show ?thesis by (auto simp: substr_neg_def)
qed

subsection \<open>The OTP variables\<close>

lemma armed_123_eq:
  "armed_123 =
     \<lparr>sso_url = None, otp_length = 6, url = ''http://example.test/'', isRunning = True,
      typedChars = js ''23'', typedTime = Some 3000, lastKeypressTimeStamp = Some 3,
      passwordLengths = [False, True], otpMode = True, otpTime = Some 0, otpCount = 3,
      isEnterpriseUse = False\<rparr>"
  by (simp add: armed_123_def watch_one_def running_page_eq handler_defs
      handleKeypress_loop_eq)

lemma handleKeypress_otp_inactive:
  "\<not> otpMode s \<Longrightarrow> handleKeypress_otp now evt s = (s, [])"
  by (simp add: handleKeypress_otp_def)

lemma handleKeypress_otp_timeout:
  assumes "otpMode s" "elapsed_gt now (otpTime s) (SECONDS_TO_CLEAR_OTP * 1000)"
  shows "fst (handleKeypress_otp now evt s) = s\<lparr>otpMode := False\<rparr>"
    and "ClearOtpMode \<in> set (snd (handleKeypress_otp now evt s))"
  using assms by (simp_all add: handleKeypress_otp_def clearOtpMode_def Let_def)

lemma handleKeypress_otp_digit:
  assumes "otpMode s" "\<not> elapsed_gt now (otpTime s) (SECONDS_TO_CLEAR_OTP * 1000)"
    and "0x30 \<le> charCode evt" "charCode evt \<le> 0x39"
  shows "otpCount (fst (handleKeypress_otp now evt s)) = otpCount s + 1"
    and "otpMode (fst (handleKeypress_otp now evt s)) = (otpCount s + 1 < otp_length s)"
    and "count_list (snd (handleKeypress_otp now evt s)) OtpAlert
           = (if otpCount s + 1 < otp_length s then 0 else 1)"
  using assms by (auto simp: handleKeypress_otp_def clearOtpMode_def Let_def)

lemma handleKeypress_otp_nondigit:
  assumes "otpMode s" "\<not> elapsed_gt now (otpTime s) (SECONDS_TO_CLEAR_OTP * 1000)"
    and "otpCount s = 0" "0 < otp_length s"
  shows "0x20 < charCode evt \<Longrightarrow> \<not> (0x30 \<le> charCode evt \<and> charCode evt \<le> 0x39) \<Longrightarrow>
           fst (handleKeypress_otp now evt s) = s\<lparr>otpMode := False\<rparr>"
    and "charCode evt \<le> 0x20 \<Longrightarrow> fst (handleKeypress_otp now evt s) = s"
  using assms by (auto simp: handleKeypress_otp_def clearOtpMode_def Let_def)

lemma count_list_loop [simp]: "count_list (handleKeypress_loop i s) OtpAlert = 0"
  unfolding handleKeypress_loop_eq by (rule count_notin) auto

lemma handleKeypress_otp_vars:
  assumes "accepted evt s"
  shows "otpMode (fst (handleKeypress now_otp now evt s)) =
           otpMode (fst (handleKeypress_otp now_otp evt
                           (s\<lparr>lastKeypressTimeStamp := Some (timeStamp evt)\<rparr>)))"
    and "otpCount (fst (handleKeypress now_otp now evt s)) =
           otpCount (fst (handleKeypress_otp now_otp evt
                            (s\<lparr>lastKeypressTimeStamp := Some (timeStamp evt)\<rparr>)))"
    and "count_list (snd (handleKeypress now_otp now evt s)) OtpAlert =
           count_list (snd (handleKeypress_otp now_otp evt
                              (s\<lparr>lastKeypressTimeStamp := Some (timeStamp evt)\<rparr>))) OtpAlert"
    and "otpTime (fst (handleKeypress now_otp now evt s)) = otpTime s"
  using assms
  by (cases "charCode evt = ENTER_ASCII_CODE";
      simp add: handleKeypress_enter handleKeypress_char)+

lemma accepted_otpMode_update [simp]: "accepted evt (s\<lparr>otpMode := b\<rparr>) = accepted evt s"
  by (simp add: accepted_def)

lemma appended_otpMode_update [simp]: "appended now evt (s\<lparr>otpMode := b\<rparr>) = appended now evt s"
  by (simp add: appended_def Let_def)

lemma armed_page_eq:
  "armed_page =
     \<lparr>sso_url = None, otp_length = 6, url = ''http://example.test/'', isRunning = True,
      typedChars = [], typedTime = None, lastKeypressTimeStamp = None,
      passwordLengths = [False, True], otpMode = True, otpTime = Some 0, otpCount = 0,
      isEnterpriseUse = False\<rparr>"
  by (simp add: armed_page_def watch_one_def running_page_eq checkChars_response_def)

lemma armed_page_reached:
  "armed_page = fst (run [Message (watching watch_one), Response True 0]
                       (initializePage None ''http://example.test/''))"
  by (simp add: armed_page_def running_page_def case_prod_beta)

subsection \<open>Counting digits\<close>

lemma run_Cons_snd: "snd (run (i # ins) s) = snd (step i s) @ snd (run ins (fst (step i s)))"
  by (simp add: case_prod_beta)

lemma digitKeys_take: "digitKeys prev armed ks \<Longrightarrow> digitKeys prev armed (take n ks)"
proof (induction prev armed ks arbitrary: n rule: digitKeys.induct)
  case (2 prev armed now_otp now evt ks)
  then show ?case by (cases n) simp_all
qed simp_all

lemma digit_keypress:
  assumes "isRunning s" "otpMode s"
    and "digitKeys (lastKeypressTimeStamp s) (otpTime s) [Keypress now_otp now evt]"
  shows "otpCount (fst (handleKeypress now_otp now evt s)) = otpCount s + 1"
    and "otpMode (fst (handleKeypress now_otp now evt s)) = (otpCount s + 1 < otp_length s)"
    and "count_list (snd (handleKeypress now_otp now evt s)) OtpAlert
           = (if otpCount s + 1 < otp_length s then 0 else 1)"
    and "lastKeypressTimeStamp (fst (handleKeypress now_otp now evt s)) = Some (timeStamp evt)"
    and "otpTime (fst (handleKeypress now_otp now evt s)) = otpTime s"
proof -
  let ?t = "s\<lparr>lastKeypressTimeStamp := Some (timeStamp evt)\<rparr>"
  have acc: "accepted evt s"
    using assms(1,3) by (simp add: accepted_def)
  have t: "otpMode ?t" "\<not> elapsed_gt now_otp (otpTime ?t) (SECONDS_TO_CLEAR_OTP * 1000)"
    "0x30 \<le> charCode evt" "charCode evt \<le> 0x39"
    using assms(2,3) by simp_all
  show "otpCount (fst (handleKeypress now_otp now evt s)) = otpCount s + 1"
    using handleKeypress_otp_digit(1) [OF t] by (simp add: handleKeypress_otp_vars(2) [OF acc])
  show "otpMode (fst (handleKeypress now_otp now evt s)) = (otpCount s + 1 < otp_length s)"
    using handleKeypress_otp_digit(2) [OF t] by (simp add: handleKeypress_otp_vars(1) [OF acc])
  show "count_list (snd (handleKeypress now_otp now evt s)) OtpAlert
           = (if otpCount s + 1 < otp_length s then 0 else 1)"
    using handleKeypress_otp_digit(3) [OF t] by (simp add: handleKeypress_otp_vars(3) [OF acc])
  show "lastKeypressTimeStamp (fst (handleKeypress now_otp now evt s)) = Some (timeStamp evt)"
    using acc by (rule handleKeypress_sets_timeStamp)
  show "otpTime (fst (handleKeypress now_otp now evt s)) = otpTime s"
    using acc by (rule handleKeypress_otp_vars(4))
qed

lemma digit_keypresses:
  assumes "isRunning s" "otpMode s"
    and "digitKeys (lastKeypressTimeStamp s) (otpTime s) ks"
    and "otpCount s < otp_length s" "otpCount s + length ks \<le> otp_length s"
  shows "otpCount (fst (run ks s)) = otpCount s + length ks
         \<and> otpMode (fst (run ks s)) = (otpCount s + length ks < otp_length s)
         \<and> count_list (snd (run ks s)) OtpAlert
             = (if otpCount s + length ks < otp_length s then 0 else 1)"
  using assms
proof (induction ks arbitrary: s)
  case Nil
  then show ?case by simp
next
  case (Cons k ks)
  from Cons.prems(3) obtain now_otp now evt where k: "k = Keypress now_otp now evt"
    by (cases k) simp_all
  let ?s1 = "fst (handleKeypress now_otp now evt s)"
  have one: "digitKeys (lastKeypressTimeStamp s) (otpTime s) [Keypress now_otp now evt]"
    using Cons.prems(3) by (simp add: k)
  note d = digit_keypress [OF Cons.prems(1,2) one]
  show ?case
  proof (cases "otpCount s + 1 < otp_length s")
    case True
    have rest: "digitKeys (lastKeypressTimeStamp ?s1) (otpTime ?s1) ks"
      using Cons.prems(3) by (simp add: k d(4,5))
    have "otpCount ?s1 = otpCount s + 1" "otpMode ?s1" "isRunning ?s1"
      "count_list (snd (handleKeypress now_otp now evt s)) OtpAlert = 0"
      using d(1-3) True Cons.prems(1) by simp_all
    moreover from this True Cons.prems(5) rest
    have "otpCount (fst (run ks ?s1)) = otpCount ?s1 + length ks
         \<and> otpMode (fst (run ks ?s1)) = (otpCount ?s1 + length ks < otp_length ?s1)
         \<and> count_list (snd (run ks ?s1)) OtpAlert
             = (if otpCount ?s1 + length ks < otp_length ?s1 then 0 else 1)"
      by (intro Cons.IH) simp_all
    ultimately show ?thesis
      by (simp add: k run_Cons_fst run_Cons_snd del: run.simps)
  next
    case False
    with Cons.prems(5) have "length ks = 0" by (simp del: length_0_conv)
    then have "ks = []" by simp
    with False d(1-3) show ?thesis by (simp add: k)
  qed
qed

lemma inactive_keypress:
  assumes "\<not> otpMode s"
  shows "otpMode (fst (handleKeypress now_otp now evt s)) = False"
    and "otpCount (fst (handleKeypress now_otp now evt s)) = otpCount s"
    and "count_list (snd (handleKeypress now_otp now evt s)) OtpAlert = 0"
  using assms
  by (cases "accepted evt s";
      simp add: handleKeypress_rejected handleKeypress_otp_vars handleKeypress_otp_inactive)+

lemma inactive_step:
  assumes "\<not> otpMode s" "nonArming i"
  shows "otpMode (fst (step i s)) = False"
    and "otpCount (fst (step i s)) = otpCount s"
    and "count_list (snd (step i s)) OtpAlert = 0"
proof -
  have "otpMode (fst (step i s)) = False \<and> otpCount (fst (step i s)) = otpCount s
        \<and> count_list (snd (step i s)) OtpAlert = 0"
  proof (cases i)
    case (Message msg)
    with assms show ?thesis
      by (simp add: start_def stop_def Let_def)
  next
    case (Keypress now_otp now evt)
    with inactive_keypress [OF assms(1), of now_otp now evt] show ?thesis by simp
  next
    case (Response response now)
    with assms show ?thesis by (simp add: checkChars_response_def)
  qed
  then show "otpMode (fst (step i s)) = False"
    and "otpCount (fst (step i s)) = otpCount s"
    and "count_list (snd (step i s)) OtpAlert = 0"
    by simp_all
qed

lemma inactive_inputs:
  assumes "\<not> otpMode s" "list_all nonArming ins"
  shows "otpMode (fst (run ins s)) = False \<and> otpCount (fst (run ins s)) = otpCount s
         \<and> count_list (snd (run ins s)) OtpAlert = 0"
  using assms
proof (induction ins arbitrary: s)
  case Nil
  then show ?case by simp
next
  case (Cons i ins)
  from Cons.prems(2) have na: "nonArming i" and rest: "list_all nonArming ins"
    by simp_all
  note st = inactive_step [OF Cons.prems(1) na]
  from st(1) rest
  have "otpMode (fst (run ins (fst (step i s)))) = False
        \<and> otpCount (fst (run ins (fst (step i s)))) = otpCount (fst (step i s))
        \<and> count_list (snd (run ins (fst (step i s)))) OtpAlert = 0"
    by (intro Cons.IH) simp_all
  with st show ?case
    by (simp add: run_Cons_fst run_Cons_snd del: run.simps)
qed


section \<open>The claims\<close>

text \<open>
  C4. A keypress without a view, or with a time stamp not above the one recorded for the
  last accepted keypress, changes nothing: the handler returns the state it was given
  (buffer, recorded time stamp and OTP variables included) and sends no message.
\<close>

theorem rejected_keypress_is_noop:
  assumes "view evt = False
           \<or> (\<exists>t. lastKeypressTimeStamp s = Some t \<and> timeStamp evt \<le> t)"
  shows "handleKeypress now_otp now evt s = (s, [])"
  using assms by (auto simp: handleKeypress_def timeStamp_le_def)

theorem rejected_keypress_is_noop_witness:
  "lastKeypressTimeStamp (fst (handleKeypress 0 0 (key 97 5) (running_page [False, True])))
     = Some 5
   \<and> handleKeypress 0 10 (key 98 5)
         (fst (handleKeypress 0 0 (key 97 5) (running_page [False, True])))
       = (fst (handleKeypress 0 0 (key 97 5) (running_page [False, True])), [])
   \<and> handleKeypress 0 10 (key 98 6\<lparr>view := False\<rparr>) (running_page [False, True])
       = (running_page [False, True], [])"
proof -
  let ?s = "fst (handleKeypress 0 0 (key 97 5) (running_page [False, True]))"
  have acc: "accepted (key 97 5) (running_page [False, True])"
    by (simp add: running_page_eq accepted_def key_def timeStamp_le_def)
  have ts: "lastKeypressTimeStamp ?s = Some 5"
    using handleKeypress_sets_timeStamp [OF acc] by (simp add: key_def)
  have "handleKeypress 0 10 (key 98 5) ?s = (?s, [])"
    using rejected_keypress_is_noop [of "key 98 5" ?s 0 10] ts by (simp add: key_def)
  moreover
  have "handleKeypress 0 10 (key 98 6\<lparr>view := False\<rparr>) (running_page [False, True])
          = (running_page [False, True], [])"
    using rejected_keypress_is_noop
            [of "key 98 6\<lparr>view := False\<rparr>" "running_page [False, True]" 0 10]
    by simp
  ultimately show ?thesis using ts by simp
qed

text \<open>
  C8. Once \<open>stop\<close> has run, a keypress changes nothing and sends nothing, and so does
  every sequence of keypresses that follows.
\<close>

theorem stopped_keypress_is_noop:
  "handleKeypress now_otp now evt (stop s) = (stop s, [])
   \<and> run (map (\<lambda>(now_otp, now, evt). Keypress now_otp now evt) ks) (stop s) = (stop s, [])"
proof -
  have one: "handleKeypress a n e (stop s) = (stop s, [])" for a n e
    by (simp add: handleKeypress_def stop_def)
  have "run (map (\<lambda>(now_otp, now, evt). Keypress now_otp now evt) ks) (stop s) = (stop s, [])"
    by (induction ks) (simp_all add: one case_prod_beta)
  with one show ?thesis by simp
qed

text \<open>
  C9. The whitelist check is a suffix match over the whole list: a domain is whitelisted
  exactly when some entry of the list is a suffix of it. With the list holding only
  \<open>accounts.google.com\<close>, the domain \<open>login.accounts.google.com\<close> is whitelisted although
  it differs from the entry, and \<open>accounts.google.com.evil.com\<close> is not.
\<close>

theorem whitelistUrl_suffix_match:
  "(whitelistUrl domain ws \<longleftrightarrow> (\<exists>w \<in> set ws. suffix w domain))
   \<and> whitelistUrl ''login.accounts.google.com'' [''accounts.google.com''] = True
   \<and> whitelistUrl ''accounts.google.com.evil.com'' [''accounts.google.com''] = False
   \<and> ''login.accounts.google.com'' \<noteq> ''accounts.google.com''"
proof -
  have "whitelistUrl domain ws \<longleftrightarrow> (\<exists>w \<in> set ws. suffix w domain)"
    by (rule whitelistUrl_iff_suffix)
  moreover
  have "whitelistUrl ''login.accounts.google.com'' [''accounts.google.com''] = True"
    by (simp add: endsWith_def)
  moreover
  have "whitelistUrl ''accounts.google.com.evil.com'' [''accounts.google.com''] = False"
    by (simp add: endsWith_def)
  ultimately show ?thesis by simp
qed

theorem whitelistUrl_suffix_match_witness:
  "suffix ''accounts.google.com'' ''login.accounts.google.com''
   \<and> whitelistUrl ''login.accounts.google.com'' [''example.org'', ''accounts.google.com'']
   \<and> \<not> whitelistUrl ''accounts.google.com'' [''login.accounts.google.com'', ''google.co'']"
proof -
  have s: "suffix ''accounts.google.com'' ''login.accounts.google.com''"
    by (simp add: suffix_to_prefix)
  have n: "\<not> suffix ''login.accounts.google.com'' ''accounts.google.com''"
    "\<not> suffix ''google.co'' ''accounts.google.com''"
    by (simp_all add: suffix_to_prefix)
  have "whitelistUrl ''login.accounts.google.com'' [''example.org'', ''accounts.google.com'']"
    using whitelistUrl_suffix_match
            [of "''login.accounts.google.com''" "[''example.org'', ''accounts.google.com'']",
             THEN conjunct1] s
    by (simp del: whitelistUrl.simps)
  moreover
  have "\<not> whitelistUrl ''accounts.google.com'' [''login.accounts.google.com'', ''google.co'']"
    using whitelistUrl_suffix_match
            [of "''accounts.google.com''" "[''login.accounts.google.com'', ''google.co'']",
             THEN conjunct1] n
    by (simp del: whitelistUrl.simps)
  ultimately show ?thesis using s by simp
qed

text \<open>
  C2. An accepted keypress other than Enter sends one candidate for each length \<open>i\<close>
  from 1 to the length of the buffer it leaves behind such that \<open>i\<close> is watched, namely
  the last \<open>i\<close> characters of that buffer, shortest first, and no other candidate. With
  the lengths 4 and 6 watched and \<open>xx123\<close> typed, the key \<open>4\<close> makes the buffer \<open>xx1234\<close>
  and sends exactly \<open>1234\<close> and \<open>xx1234\<close>.
\<close>

theorem candidates_are_watched_suffixes:
  assumes "accepted evt s" "charCode evt \<noteq> ENTER_ASCII_CODE"
  shows "let b = typedChars (fst (handleKeypress now_otp now evt s))
         in candidates (snd (handleKeypress now_otp now evt s)) =
              map (\<lambda>i. drop (length b - i) b)
                (filter (isWatched (passwordLengths s)) [1..<Suc (length b)])"
proof -
  let ?s' = "fst (handleKeypress now_otp now evt s)"
  let ?b = "typedChars ?s'"
  let ?pl = "passwordLengths s"
  have pl: "passwordLengths ?s' = ?pl"
    using assms by (simp add: handleKeypress_char)
  have "candidates (snd (handleKeypress now_otp now evt s)) =
          map (substr_neg ?b) (filter (\<lambda>k. ?pl ! k \<and> k \<le> length ?b) [1..<length ?pl])"
    using assms pl by (simp add: handleKeypress_char(2) handleKeypress_loop_eq)
  also have "filter (\<lambda>k. ?pl ! k \<and> k \<le> length ?b) [1..<length ?pl] =
               filter (isWatched ?pl) [1..<Suc (length ?b)]"
    by (rule filter_upt_eq) (auto simp: isWatched_def)
  also have "map (substr_neg ?b) (filter (isWatched ?pl) [1..<Suc (length ?b)]) =
               map (\<lambda>i. drop (length ?b - i) ?b)
                 (filter (isWatched ?pl) [1..<Suc (length ?b)])"
    by (rule map_cong) (auto simp: substr_neg_def)
  finally show ?thesis by (simp add: Let_def)
qed

theorem candidates_are_watched_suffixes_witness:
  "accepted (key 52 6) typed_xx123
   \<and> charCode (key 52 6) \<noteq> ENTER_ASCII_CODE
   \<and> typedChars (fst (handleKeypress 500 500 (key 52 6) typed_xx123)) = js ''xx1234''
   \<and> candidates (snd (handleKeypress 500 500 (key 52 6) typed_xx123))
       = [js ''1234'', js ''xx1234'']"
proof -
  have acc: "accepted (key 52 6) typed_xx123"
    by (simp add: typed_xx123_eq accepted_def key_def timeStamp_le_def)
  have ne: "charCode (key 52 6) \<noteq> ENTER_ASCII_CODE"
    by (simp add: key_def ENTER_ASCII_CODE_def)
  have b: "typedChars (fst (handleKeypress 500 500 (key 52 6) typed_xx123)) = js ''xx1234''"
    by (subst handleKeypress_char(1) [OF acc ne])
       (simp add: appended_def typed_xx123_eq elapsed_gt_def SECONDS_TO_CLEAR_def
          fromCharCode_def key_def)
  have pl: "passwordLengths typed_xx123 = [False, False, False, False, True, False, True]"
    by (simp add: typed_xx123_eq)
  have "candidates (snd (handleKeypress 500 500 (key 52 6) typed_xx123))
          = [js ''1234'', js ''xx1234'']"
    using candidates_are_watched_suffixes [OF acc ne, of 500 500]
    by (simp add: b pl Let_def isWatched_def upt_rec [of _ "Suc _"] nth_Cons')
  with acc ne b show ?thesis by simp
qed

text \<open>
  C1, as the claim states it, fails: the buffer is cut to the length of the
  \<open>passwordLengths\<close> array, which is larger than the largest watched length. On the page
  that watches only the length 1, the buffer holds two characters after two keys.
\<close>

theorem buffer_exceeds_maxLength_counterexample:
  "isRunning (fst (run [Keypress 0 0 (key 97 1), Keypress 100 100 (key 98 2)]
                     (running_page watch_one)))
   \<and> typedChars (fst (run [Keypress 0 0 (key 97 1), Keypress 100 100 (key 98 2)]
                          (running_page watch_one))) = js ''ab''
   \<and> maxLength (passwordLengths
                   (fst (run [Keypress 0 0 (key 97 1), Keypress 100 100 (key 98 2)]
                           (running_page watch_one)))) = 1
   \<and> \<not> length (typedChars (fst (run [Keypress 0 0 (key 97 1), Keypress 100 100 (key 98 2)]
                                (running_page watch_one))))
       \<le> maxLength (passwordLengths
                       (fst (run [Keypress 0 0 (key 97 1), Keypress 100 100 (key 98 2)]
                               (running_page watch_one))))"
  by (simp add: watch_one_def running_page_eq handler_defs handleKeypress_loop_eq
      maxLength_def isWatched_def upt_rec [of _ "Suc _"])

text \<open>
  C1, amended. Whatever inputs the page has handled since it was loaded, while it is
  running the buffer is never longer than the \<open>passwordLengths\<close> array, and that array is
  longer than the largest watched length.
\<close>

theorem buffer_bounded_by_array_length:
  assumes "s = fst (run ins (initializePage pol href))" "isRunning s"
  shows "length (typedChars s) \<le> length (passwordLengths s)
         \<and> maxLength (passwordLengths s) < length (passwordLengths s)"
proof -
  have "passwordLengths s \<noteq> [] \<and> length (typedChars s) \<le> length (passwordLengths s)"
    unfolding assms(1)
    by (rule buffer_inv_run) (use assms in simp_all)
  then show ?thesis by (simp add: maxLength_less_length)
qed

theorem buffer_bounded_by_array_length_witness:
  "isRunning (fst (run [Message (watching watch_one), Keypress 0 0 (key 97 1),
                        Keypress 100 100 (key 98 2), Keypress 200 200 (key 99 3)]
                     (initializePage None ''http://example.test/'')))
   \<and> length (typedChars
        (fst (run [Message (watching watch_one), Keypress 0 0 (key 97 1),
                   Keypress 100 100 (key 98 2), Keypress 200 200 (key 99 3)]
                (initializePage None ''http://example.test/'')))) \<le> 2"
proof -
  let ?s = "fst (run [Message (watching watch_one), Keypress 0 0 (key 97 1),
                      Keypress 100 100 (key 98 2), Keypress 200 200 (key 99 3)]
                  (initializePage None ''http://example.test/''))"
  have pl: "passwordLengths ?s = watch_one \<and> isRunning ?s"
    by (simp add: watch_one_def initializePage_def
        setManagedPolicyValuesIntoConfigurableVariables_def initial_def watching_def
        startsWith_def GAIA_URL_def handler_defs handleKeypress_loop_eq)
  then show ?thesis
    using buffer_bounded_by_array_length [OF refl, of "[Message (watching watch_one),
        Keypress 0 0 (key 97 1), Keypress 100 100 (key 98 2), Keypress 200 200 (key 99 3)]"
        None "''http://example.test/''"]
    by (simp add: watch_one_def)
qed

text \<open>
  C10, as the claim states it, fails: \<open>stop\<close> and \<open>start\<close> leave the recorded time stamp
  in place, so the first keypress after the page has been started again is compared with
  the time stamp accepted before. After a key with time stamp 100 and a second status
  message, the running page rejects a genuine key with time stamp 50.
\<close>

theorem first_keypress_after_restart_rejected_counterexample:
  "isRunning restarted_page \<and> view (key 98 50)
   \<and> \<not> accepted (key 98 50) restarted_page
   \<and> handleKeypress 200 200 (key 98 50) restarted_page = (restarted_page, [])"
  by (simp add: restarted_page_eq handler_defs)

text \<open>
  C10, amended. As long as the page has accepted no keypress since it was loaded
  (whatever status messages, answers and ignored keys have come, so the page may have
  been stopped and started again), no time stamp is recorded, and a keypress with a view
  that reaches the running page is accepted whatever its time stamp. That time stamp is
  then recorded, and a later keypress that does not exceed it is rejected.
\<close>

theorem first_keypress_passes_timeStamp_filter:
  assumes "\<not> anyAccepted ins (initializePage pol href)"
    and "s = fst (run ins (initializePage pol href))"
    and "isRunning s" "view evt"
  shows "lastKeypressTimeStamp s = None
         \<and> accepted evt s
         \<and> lastKeypressTimeStamp (fst (handleKeypress now_otp now evt s)) = Some (timeStamp evt)
         \<and> (timeStamp evt' \<le> timeStamp evt \<longrightarrow>
              handleKeypress now_otp' now' evt' (fst (handleKeypress now_otp now evt s))
                = (fst (handleKeypress now_otp now evt s), []))"
proof -
  have none: "lastKeypressTimeStamp s = None"
    using assms(1) by (simp add: assms(2) run_timeStamp)
  with assms(3,4) have acc: "accepted evt s"
    by (simp add: accepted_def timeStamp_le_def)
  then have ts: "lastKeypressTimeStamp (fst (handleKeypress now_otp now evt s))
                   = Some (timeStamp evt)"
    by (rule handleKeypress_sets_timeStamp)
  have "handleKeypress now_otp' now' evt' (fst (handleKeypress now_otp now evt s))
          = (fst (handleKeypress now_otp now evt s), [])"
    if "timeStamp evt' \<le> timeStamp evt"
    by (rule handleKeypress_rejected) (simp add: accepted_def ts timeStamp_le_def that)
  with none acc ts show ?thesis by simp
qed

theorem first_keypress_passes_timeStamp_filter_witness:
  "\<not> anyAccepted quiet_inputs (initializePage None ''http://example.test/'')
   \<and> isRunning (fst (run quiet_inputs (initializePage None ''http://example.test/'')))
   \<and> view (key 97 (- 7))
   \<and> lastKeypressTimeStamp
        (fst (handleKeypress 0 0 (key 97 (- 7))
               (fst (run quiet_inputs (initializePage None ''http://example.test/'')))))
       = Some (- 7)"
proof -
  let ?s = "fst (run quiet_inputs (initializePage None ''http://example.test/''))"
  have nk: "\<not> anyAccepted quiet_inputs (initializePage None ''http://example.test/'')"
    by (simp add: quiet_inputs_def watch_one_def initializePage_def
        setManagedPolicyValuesIntoConfigurableVariables_def initial_def watching_def
        startsWith_def GAIA_URL_def handler_defs)
  have r: "isRunning ?s"
    by (simp add: quiet_inputs_def watch_one_def initializePage_def
        setManagedPolicyValuesIntoConfigurableVariables_def initial_def watching_def
        startsWith_def GAIA_URL_def handler_defs)
  have v: "view (key 97 (- 7))" by simp
  have "lastKeypressTimeStamp (fst (handleKeypress 0 0 (key 97 (- 7)) ?s)) = Some (- 7)"
    using first_keypress_passes_timeStamp_filter [OF nk refl r v, of 0 0]
    by simp
  with nk r v show ?thesis by simp
qed

text \<open>
  C3. Take two accepted keypresses in a row, the second not Enter, with more than
  \<open>SECONDS_TO_CLEAR\<close> seconds between the clock readings of the two. Then the buffer
  after the second holds the new character alone, and the only candidate it can send is
  that one character: nothing typed before the pause is part of a candidate. On the page
  watching the length 5, after \<open>abc\<close> and a pause of 11 seconds the key \<open>d\<close> leaves the
  buffer \<open>d\<close> and the key \<open>e\<close> the buffer \<open>de\<close>, and no candidate is sent at all.
\<close>

theorem buffer_restarts_after_pause:
  assumes "accepted evt1 s"
    and "s1 = fst (handleKeypress now_otp1 now1 evt1 s)"
    and "accepted evt2 s1" "charCode evt2 \<noteq> ENTER_ASCII_CODE"
    and "now2 - now1 > SECONDS_TO_CLEAR * 1000"
  shows "typedChars (fst (handleKeypress now_otp2 now2 evt2 s1)) = fromCharCode (charCode evt2)
         \<and> set (candidates (snd (handleKeypress now_otp2 now2 evt2 s1)))
             \<subseteq> {fromCharCode (charCode evt2)}"
proof -
  have "typedChars s1 = [] \<or> elapsed_gt now2 (typedTime s1) (SECONDS_TO_CLEAR * 1000)"
  proof (cases "charCode evt1 = ENTER_ASCII_CODE")
    case True
    with assms(1,2) show ?thesis by (simp add: handleKeypress_enter_empties)
  next
    case False
    with assms(1,2) have "typedTime s1 = Some now1"
      by (simp add: handleKeypress_typedTime)
    with assms(5) show ?thesis by (simp add: elapsed_gt_def)
  qed
  then have b: "typedChars (fst (handleKeypress now_otp2 now2 evt2 s1))
                  = fromCharCode (charCode evt2)"
    using assms(3,4) by (simp add: handleKeypress_char(1) appended_fresh)
  then have "typedChars (fst (handleKeypress now_otp2 now2 evt2 s1))
               = [charCode evt2 mod 65536]"
    by (simp add: fromCharCode_def)
  with assms(3,4)
  have "set (candidates (snd (handleKeypress now_otp2 now2 evt2 s1)))
          \<subseteq> {[charCode evt2 mod 65536]}"
    by (rule candidates_of_single)
  with b show ?thesis by (simp add: fromCharCode_def)
qed

theorem buffer_restarts_after_pause_witness:
  "accepted (key 99 3) typed_ab
   \<and> typedChars (fst (handleKeypress 200 200 (key 99 3) typed_ab)) = js ''abc''
   \<and> accepted (key 100 4) (fst (handleKeypress 200 200 (key 99 3) typed_ab))
   \<and> charCode (key 100 4) \<noteq> ENTER_ASCII_CODE
   \<and> (11200::int) - 200 > SECONDS_TO_CLEAR * 1000
   \<and> typedChars (fst (handleKeypress 11200 11200 (key 100 4)
                         (fst (handleKeypress 200 200 (key 99 3) typed_ab)))) = js ''d''
   \<and> typedChars (fst (handleKeypress 11300 11300 (key 101 5)
                         (fst (handleKeypress 11200 11200 (key 100 4)
                                (fst (handleKeypress 200 200 (key 99 3) typed_ab))))))
       = js ''de''
   \<and> candidates (snd (run [Keypress 200 200 (key 99 3), Keypress 11200 11200 (key 100 4),
                             Keypress 11300 11300 (key 101 5)] typed_ab)) = []"
proof -
  let ?s1 = "fst (handleKeypress 200 200 (key 99 3) typed_ab)"
  have a1: "accepted (key 99 3) typed_ab"
    by (simp add: typed_ab_eq accepted_def key_def timeStamp_le_def)
  have ne1: "charCode (key 99 3) \<noteq> ENTER_ASCII_CODE"
    by (simp add: key_def ENTER_ASCII_CODE_def)
  have abc: "typedChars ?s1 = js ''abc''"
    by (subst handleKeypress_char(1) [OF a1 ne1])
       (simp add: appended_def typed_ab_eq elapsed_gt_def SECONDS_TO_CLEAR_def
          fromCharCode_def key_def)
  have a2: "accepted (key 100 4) ?s1"
    using a1 handleKeypress_sets_timeStamp [OF a1, of 200 200]
    by (simp add: accepted_def key_def timeStamp_le_def)
  have ne2: "charCode (key 100 4) \<noteq> ENTER_ASCII_CODE"
    by (simp add: key_def ENTER_ASCII_CODE_def)
  have gap: "(11200::int) - 200 > SECONDS_TO_CLEAR * 1000"
    by (simp add: SECONDS_TO_CLEAR_def)
  let ?s2 = "fst (handleKeypress 11200 11200 (key 100 4) ?s1)"
  have d: "typedChars ?s2 = js ''d''"
    using buffer_restarts_after_pause [OF a1 refl a2 ne2 gap, of 11200]
    by (simp add: fromCharCode_def key_def)
  have a3: "accepted (key 101 5) ?s2"
    using a2 handleKeypress_sets_timeStamp [OF a2, of 11200 11200]
    by (simp add: accepted_def key_def timeStamp_le_def)
  have ne3: "charCode (key 101 5) \<noteq> ENTER_ASCII_CODE"
    by (simp add: key_def ENTER_ASCII_CODE_def)
  have pl: "passwordLengths typed_ab = [False, False, False, False, False, True]"
    by (simp add: typed_ab_eq)
  have tt: "typedTime ?s2 = Some 11200"
    using a2 ne2 by (rule handleKeypress_typedTime)
  have de: "typedChars (fst (handleKeypress 11300 11300 (key 101 5) ?s2)) = js ''de''"
    by (subst handleKeypress_char(1) [OF a3 ne3])
       (simp add: appended_def Let_def d pl tt elapsed_gt_def SECONDS_TO_CLEAR_def
          fromCharCode_def)
  have none: "candidates (snd (run [Keypress 200 200 (key 99 3),
                  Keypress 11200 11200 (key 100 4), Keypress 11300 11300 (key 101 5)]
                typed_ab)) = []"
    by (simp add: typed_ab_eq handler_defs handleKeypress_loop_eq)
  from a1 abc a2 ne2 gap d de none show ?thesis by simp
qed

text \<open>
  C5, as the claim states it, fails: the timeout clears \<open>otpMode\<close> but leaves \<open>otpCount\<close>
  as it is. With the tracker armed at time 0 and three digits counted, a key handled at
  time 61000 leaves the count at 3.
\<close>

theorem otp_timeout_keeps_count_counterexample:
  "accepted (key 52 4) armed_123 \<and> otpMode armed_123 \<and> otpTime armed_123 = Some 0
   \<and> (61000::int) - 0 > SECONDS_TO_CLEAR_OTP * 1000
   \<and> \<not> (otpMode (fst (handleKeypress 61000 61000 (key 52 4) armed_123)) = False
         \<and> otpCount (fst (handleKeypress 61000 61000 (key 52 4) armed_123)) = 0)"
  by (simp add: armed_123_eq handler_defs handleKeypress_loop_eq)

text \<open>
  C5, amended. When a keypress is accepted while the tracker is active and more than
  \<open>SECONDS_TO_CLEAR_OTP\<close> seconds after it was armed, the tracker is made inactive and
  the background page is told so; the digit count keeps its value; and the rest of the
  handler leaves the state it would have left had the tracker been inactive from the
  start.
\<close>

theorem otp_timeout_disarms:
  assumes "accepted evt s" "otpMode s" "otpTime s = Some armed"
    and "now_otp - armed > SECONDS_TO_CLEAR_OTP * 1000"
  shows "otpMode (fst (handleKeypress now_otp now evt s)) = False
         \<and> otpCount (fst (handleKeypress now_otp now evt s)) = otpCount s
         \<and> ClearOtpMode \<in> set (snd (handleKeypress now_otp now evt s))
         \<and> fst (handleKeypress now_otp now evt s)
             = fst (handleKeypress now_otp now evt (s\<lparr>otpMode := False\<rparr>))"
proof -
  let ?t = "s\<lparr>lastKeypressTimeStamp := Some (timeStamp evt)\<rparr>"
  have late: "elapsed_gt now_otp (otpTime ?t) (SECONDS_TO_CLEAR_OTP * 1000)"
    using assms(3,4) by (simp add: elapsed_gt_def)
  have armed: "otpMode ?t" using assms(2) by simp
  have off: "fst (handleKeypress_otp now_otp evt ?t) = ?t\<lparr>otpMode := False\<rparr>"
    using armed late by (rule handleKeypress_otp_timeout)
  have msg: "ClearOtpMode \<in> set (snd (handleKeypress_otp now_otp evt ?t))"
    using armed late by (rule handleKeypress_otp_timeout)
  have same: "fst (handleKeypress_otp now_otp evt
                     (s\<lparr>otpMode := False, lastKeypressTimeStamp := Some (timeStamp evt)\<rparr>))
                = ?t\<lparr>otpMode := False\<rparr>"
    by (simp add: handleKeypress_otp_inactive)
  show ?thesis
  proof (cases "charCode evt = ENTER_ASCII_CODE")
    case True
    with assms(1) off msg same show ?thesis
      by (simp add: handleKeypress_enter)
  next
    case False
    with assms(1) off msg same show ?thesis
      by (simp add: handleKeypress_char)
  qed
qed

theorem otp_timeout_disarms_witness:
  "accepted (key 52 4) armed_123 \<and> otpMode armed_123 \<and> otpTime armed_123 = Some 0
   \<and> (61000::int) - 0 > SECONDS_TO_CLEAR_OTP * 1000
   \<and> otpMode (fst (handleKeypress 61000 61000 (key 52 4) armed_123)) = False
   \<and> otpCount (fst (handleKeypress 61000 61000 (key 52 4) armed_123)) = 3"
proof -
  have h: "accepted (key 52 4) armed_123" "otpMode armed_123" "otpTime armed_123 = Some 0"
    by (simp_all add: armed_123_eq accepted_def key_def timeStamp_le_def)
  have late: "(61000::int) - 0 > SECONDS_TO_CLEAR_OTP * 1000"
    by (simp add: SECONDS_TO_CLEAR_OTP_def)
  have c: "otpCount armed_123 = 3" by (simp add: armed_123_eq)
  have "otpMode (fst (handleKeypress 61000 61000 (key 52 4) armed_123)) = False"
    and "otpCount (fst (handleKeypress 61000 61000 (key 52 4) armed_123)) = otpCount armed_123"
    using otp_timeout_disarms [OF h late, of 61000] by blast+
  with c h late show ?thesis by simp
qed

text \<open>
  C6, as the claim states it, fails: the handler takes a character code above \<open>0x20\<close> for
  printable, so the space, a printable character at \<open>0x20\<close>, does not disarm the
  tracker, and the delete character \<open>0x7F\<close>, which is not printable, does. With the
  tracker armed at time 0 and no digit counted, a space handled at time 1000 leaves it
  active and a delete character makes it inactive.
\<close>

theorem otp_space_keeps_armed_counterexample:
  "accepted (key 0x20 1) armed_page \<and> accepted (key 0x7F 1) armed_page
   \<and> otpMode armed_page \<and> otpCount armed_page = 0
   \<and> \<not> elapsed_gt 1000 (otpTime armed_page) (SECONDS_TO_CLEAR_OTP * 1000)
   \<and> isPrintableAscii 0x20 \<and> \<not> (0x30 \<le> (0x20::nat) \<and> (0x20::nat) \<le> 0x39)
   \<and> otpMode (fst (handleKeypress 1000 1000 (key 0x20 1) armed_page)) = True
   \<and> \<not> isPrintableAscii 0x7F
   \<and> otpMode (fst (handleKeypress 1000 1000 (key 0x7F 1) armed_page)) = False"
  by (simp add: armed_page_eq isPrintableAscii_def handler_defs handleKeypress_loop_eq)

text \<open>
  C6, amended. On a page reached from page load, take a keypress that is accepted while
  the tracker is active, no digit has been counted, and the time since arming is within
  \<open>SECONDS_TO_CLEAR_OTP\<close>. If its character code is above \<open>0x20\<close> and not a digit, the
  tracker is inactive afterwards; if its character code is at most \<open>0x20\<close> (a control
  code or the space), the tracker is still active and the count still 0.
\<close>

theorem otp_nondigit_before_first_digit:
  assumes "s = fst (run ins (initializePage pol href))"
    and "accepted evt s" "otpMode s" "otpCount s = 0"
    and "\<not> elapsed_gt now_otp (otpTime s) (SECONDS_TO_CLEAR_OTP * 1000)"
  shows "(0x20 < charCode evt \<and> \<not> (0x30 \<le> charCode evt \<and> charCode evt \<le> 0x39)
            \<longrightarrow> otpMode (fst (handleKeypress now_otp now evt s)) = False)
         \<and> (charCode evt \<le> 0x20
            \<longrightarrow> otpMode (fst (handleKeypress now_otp now evt s)) = True
                \<and> otpCount (fst (handleKeypress now_otp now evt s)) = 0)"
proof -
  let ?t = "s\<lparr>lastKeypressTimeStamp := Some (timeStamp evt)\<rparr>"
  have pos: "0 < otp_length ?t"
    using initializePage_otp_length [of pol href] by (simp add: assms(1))
  have t: "otpMode ?t" "\<not> elapsed_gt now_otp (otpTime ?t) (SECONDS_TO_CLEAR_OTP * 1000)"
    "otpCount ?t = 0"
    using assms(3-5) by simp_all
  have "fst (handleKeypress_otp now_otp evt ?t) = ?t\<lparr>otpMode := False\<rparr>"
    if "0x20 < charCode evt" "\<not> (0x30 \<le> charCode evt \<and> charCode evt \<le> 0x39)"
    using t pos that by (rule handleKeypress_otp_nondigit(1))
  moreover have "fst (handleKeypress_otp now_otp evt ?t) = ?t" if "charCode evt \<le> 0x20"
    using t pos that by (rule handleKeypress_otp_nondigit(2))
  ultimately show ?thesis
    using assms(2-4) by (auto simp: handleKeypress_otp_vars(1,2))
qed

theorem otp_nondigit_before_first_digit_witness:
  "accepted (key 97 1) armed_page \<and> accepted (key 9 1) armed_page
   \<and> otpMode armed_page \<and> otpCount armed_page = 0
   \<and> \<not> elapsed_gt 1000 (otpTime armed_page) (SECONDS_TO_CLEAR_OTP * 1000)
   \<and> otpMode (fst (handleKeypress 1000 1000 (key 97 1) armed_page)) = False
   \<and> otpMode (fst (handleKeypress 1000 1000 (key 9 1) armed_page)) = True"
proof -
  have a: "accepted (key 97 1) armed_page" "accepted (key 9 1) armed_page"
    by (simp_all add: armed_page_eq accepted_def key_def timeStamp_le_def)
  have m: "otpMode armed_page" "otpCount armed_page = 0"
    by (simp_all add: armed_page_eq)
  have w: "\<not> elapsed_gt 1000 (otpTime armed_page) (SECONDS_TO_CLEAR_OTP * 1000)"
    by (simp add: armed_page_eq elapsed_gt_def SECONDS_TO_CLEAR_OTP_def)
  have "otpMode (fst (handleKeypress 1000 1000 (key 97 1) armed_page)) = False"
    using otp_nondigit_before_first_digit [OF armed_page_reached a(1) m w, of 1000]
    by (simp add: key_def)
  moreover have "otpMode (fst (handleKeypress 1000 1000 (key 9 1) armed_page)) = True"
    using otp_nondigit_before_first_digit [OF armed_page_reached a(2) m w, of 1000]
    by (simp add: key_def)
  ultimately show ?thesis using a m w by simp
qed

text \<open>
  C7, as the claim states it, fails: a status message that carries \<open>otpMode\<close> makes the
  tracker active again in \<open>start\<close> without a new confirmed candidate, and keeps the old
  count. After the tracker has been armed and six digits typed, such a message followed
  by one more digit counts that digit (the count is 7) and sends a second OTP alert.
\<close>

theorem status_rearm_second_alert_counterexample:
  "otpMode armed_page \<and> otpCount armed_page = 0 \<and> otp_length armed_page = 6
   \<and> digitKeys (lastKeypressTimeStamp armed_page) (otpTime armed_page) six_digits
   \<and> count_list (snd (run six_digits armed_page)) OtpAlert = 1
   \<and> otpMode (fst (run six_digits armed_page)) = False
   \<and> otpMode (fst (run (six_digits @ [Message rearm]) armed_page)) = True
   \<and> otpCount (fst (run (six_digits @ [Message rearm, Keypress 7000 7000 (key 55 7)])
                       armed_page)) = 7
   \<and> count_list (snd (run (six_digits @ [Message rearm, Keypress 7000 7000 (key 55 7)])
                         armed_page)) OtpAlert = 2"
  by (simp add: armed_page_eq six_digits_def rearm_def watch_one_def startsWith_def
      GAIA_URL_def handler_defs handleKeypress_loop_eq)

text \<open>
  C7, amended. Let the tracker be active on a running page whose OTP length is 6, with
  no digit counted (as it is when a candidate has just been confirmed), and let six
  digit keys follow, each accepted and handled within \<open>SECONDS_TO_CLEAR_OTP\<close> of arming.
  After the first five the count is 5, the tracker is active and no OTP alert has been
  sent. After the sixth exactly one OTP alert has been sent and the tracker is inactive.
  Whatever inputs follow that do not arm the tracker (keys, negative answers, status
  messages without \<open>otpMode\<close>), the tracker stays inactive, the count does not move and
  no further alert is sent; when a candidate is confirmed again, the tracker is active
  with the count at 0.
\<close>

theorem six_digits_raise_one_alert:
  assumes "isRunning s" "otpMode s" "otpCount s = 0" "otp_length s = 6"
    and "digitKeys (lastKeypressTimeStamp s) (otpTime s) ks" "length ks = 6"
    and "list_all nonArming later"
    and "s6 = fst (run ks s)" "s7 = fst (run later s6)"
  shows "otpCount (fst (run (take 5 ks) s)) = 5
         \<and> otpMode (fst (run (take 5 ks) s)) = True
         \<and> count_list (snd (run (take 5 ks) s)) OtpAlert = 0
         \<and> count_list (snd (run ks s)) OtpAlert = 1
         \<and> otpMode s6 = False
         \<and> otpMode s7 = False \<and> otpCount s7 = otpCount s6
         \<and> count_list (snd (run later s6)) OtpAlert = 0
         \<and> otpMode (fst (checkChars_response True again s7)) = True
         \<and> otpCount (fst (checkChars_response True again s7)) = 0"
proof -
  note ks = assms(5)
  then have ks5: "digitKeys (lastKeypressTimeStamp s) (otpTime s) (take 5 ks)"
    by (rule digitKeys_take)
  have five: "otpCount (fst (run (take 5 ks) s)) = 5
         \<and> otpMode (fst (run (take 5 ks) s)) = True
         \<and> count_list (snd (run (take 5 ks) s)) OtpAlert = 0"
    using digit_keypresses [OF assms(1,2) ks5] assms(3,4,6) by simp
  have six: "count_list (snd (run ks s)) OtpAlert = 1 \<and> otpMode s6 = False"
    using digit_keypresses [OF assms(1,2) ks] assms(3,4,6) by (simp add: assms(8))
  then have "\<not> otpMode s6" by simp
  then have after: "otpMode s7 = False \<and> otpCount s7 = otpCount s6
         \<and> count_list (snd (run later s6)) OtpAlert = 0"
    unfolding assms(9) using assms(7) by (rule inactive_inputs)
  have "otpMode (fst (checkChars_response True again s7)) = True
         \<and> otpCount (fst (checkChars_response True again s7)) = 0"
    by (simp add: checkChars_response_def)
  with five six after show ?thesis by simp
qed

theorem six_digits_raise_one_alert_witness:
  "isRunning armed_page \<and> otpMode armed_page \<and> otpCount armed_page = 0
   \<and> otp_length armed_page = 6
   \<and> digitKeys (lastKeypressTimeStamp armed_page) (otpTime armed_page) six_digits
   \<and> length six_digits = 6
   \<and> list_all nonArming [Keypress 7000 7000 (key 55 7), Message (watching watch_one),
                           Response False 7500, Keypress 8000 8000 (key 56 8)]
   \<and> otpCount (fst (run (take 5 six_digits) armed_page)) = 5
   \<and> otpMode (fst (run (take 5 six_digits) armed_page)) = True
   \<and> count_list (snd (run six_digits armed_page)) OtpAlert = 1
   \<and> otpMode (fst (run six_digits armed_page)) = False
   \<and> count_list (snd (run [Keypress 7000 7000 (key 55 7), Message (watching watch_one),
                             Response False 7500, Keypress 8000 8000 (key 56 8)]
                          (fst (run six_digits armed_page)))) OtpAlert = 0"
proof -
  let ?later = "[Keypress 7000 7000 (key 55 7), Message (watching watch_one),
                 Response False 7500, Keypress 8000 8000 (key 56 8)]"
  have p: "isRunning armed_page" "otpMode armed_page" "otpCount armed_page = 0"
    "otp_length armed_page = 6"
    by (simp_all add: armed_page_eq)
  have d: "digitKeys (lastKeypressTimeStamp armed_page) (otpTime armed_page) six_digits"
    by (simp add: armed_page_eq six_digits_def timeStamp_le_def elapsed_gt_def
        SECONDS_TO_CLEAR_OTP_def)
  have l: "length six_digits = 6" by (simp add: six_digits_def)
  have m: "list_all nonArming ?later" by (simp add: watching_def)
  note r = six_digits_raise_one_alert [OF p d l m refl refl]
  from r have "otpCount (fst (run (take 5 six_digits) armed_page)) = 5"
    and "otpMode (fst (run (take 5 six_digits) armed_page)) = True"
    and "count_list (snd (run six_digits armed_page)) OtpAlert = 1"
    and "otpMode (fst (run six_digits armed_page)) = False"
    and "count_list (snd (run ?later (fst (run six_digits armed_page)))) OtpAlert = 0"
    by blast+
  with p d l m show ?thesis by blast
qed

end
